theory Spec2Isabelle
  imports Main
begin

section \<open>Errors\<close>

text \<open>
  Every \<open>throw\<close> of the source is a value. \<open>NotFound\<close> is the
  \<open>Error('The execution ID "..." could not be found.')\<close> of \<open>stopExecution\<close>,
  \<open>InvalidRequest\<close> the \<open>Error('Either "deleteBefore" or "ids" must be present in the
  request body')\<close> of \<open>deleteExecutions\<close>, \<open>TypeError\<close> what JavaScript raises on a property
  read or write through \<open>undefined\<close> or \<open>null\<close>, \<open>CorruptPayload\<close> the failure of the codec's
  \<open>parse\<close>, \<open>PersistenceError\<close> a write the database rejects, \<open>BinaryDataError\<close> a rejection
  of \<open>deleteBinaryDataByExecutionId\<close>.
\<close>

datatype error =
    NotFound
  | InvalidRequest
  | TypeError
  | CorruptPayload
  | PersistenceError
  | BinaryDataError

section \<open>Run data: a heap of objects, and its codec\<close>

text \<open>
  The run data of an execution (\<open>IRunExecutionData\<close>) is a JavaScript object graph: an object
  holds fields, a field holds a primitive or a reference to an object, and references may be
  shared or form cycles. A heap is the list of its objects, an address is a position in it.
  An array is an object whose field names are its indices.
\<close>

type_synonym addr = nat

datatype prim = Null | Bool bool | Num int | Str string

datatype jsval = Prim prim | Ref addr

type_synonym obj = "(string \<times> jsval) list"

type_synonym heap = "obj list"

text \<open>A run-data graph: the heap and the address of the root object.\<close>

type_synonym graph = "heap \<times> addr"

text \<open>The flat, storable form: one slot per object, each reference replaced by a slot number.\<close>

datatype encval = Lit prim | Back nat

type_synonym slot = "(string \<times> encval) list"

type_synonym flatted = "slot list"

fun refs_of :: "obj \<Rightarrow> addr list" where
  "refs_of [] = []"
| "refs_of ((f, Ref a) # fs) = a # refs_of fs"
| "refs_of ((f, Prim p) # fs) = refs_of fs"

definition object_at :: "heap \<Rightarrow> addr \<Rightarrow> obj" where
  "object_at h a = (if a < length h then h ! a else [])"

text \<open>
  Modelled from the spec: the codec (\<open>stringify\<close> and \<open>parse\<close> of the \<open>flatted\<close> package) is
  not under src. Section 4.1: the traversal "assigns each distinct object a stable integer slot
  the first time it is visited; subsequent visits to the same object emit a back-reference to
  that slot instead of re-encoding it", with an explicit worklist (section 9). \<open>assign\<close> gives
  the next free slots to the objects of \<open>as\<close> that have none yet; \<open>visit h seen k\<close> is the
  worklist loop: \<open>seen\<close> lists the objects in slot order, \<open>k\<close> is the next slot to scan.
\<close>

definition assign :: "addr list \<Rightarrow> addr list \<Rightarrow> addr list" where
  "assign seen as = fold (\<lambda>a s. if a \<in> set s then s else s @ [a]) as seen"

fun index_of :: "addr list \<Rightarrow> addr \<Rightarrow> nat" where
  "index_of [] a = 0"
| "index_of (x # xs) a = (if x = a then 0 else Suc (index_of xs a))"

definition mentioned :: "heap \<Rightarrow> addr set" where
  "mentioned h = (\<Union>ob \<in> set h. set (refs_of ob))"

lemma set_assign: "set (assign seen as) = set seen \<union> set as"
  unfolding assign_def by (induction as arbitrary: seen) auto

lemma assign_same: "set as \<subseteq> set seen \<Longrightarrow> assign seen as = seen"
  unfolding assign_def by (induction as arbitrary: seen) auto

lemma refs_object_at_mentioned: "set (refs_of (object_at h a)) \<subseteq> mentioned h"
  unfolding object_at_def mentioned_def using nth_mem by fastforce

lemma finite_mentioned: "finite (mentioned h)"
  unfolding mentioned_def by simp

function visit :: "heap \<Rightarrow> addr list \<Rightarrow> nat \<Rightarrow> addr list" where
  "visit h seen k =
     (if k < length seen
      then visit h (assign seen (refs_of (object_at h (seen ! k)))) (Suc k)
      else seen)"
  by pat_completeness auto
termination visit
proof (relation "measures [\<lambda>(h, seen, k). card (mentioned h - set seen),
                           \<lambda>(h, seen, k). length seen - k]", goal_cases)
  case 1
  then show ?case by simp
next
  case (2 h seen k)
  let ?R = "refs_of (object_at h (seen ! k))"
  show ?case
  proof (cases "set ?R \<subseteq> set seen")
    case True
    then have "assign seen ?R = seen" by (rule assign_same)
    with 2 show ?thesis by simp
  next
    case False
    then obtain a where a: "a \<in> set ?R" "a \<notin> set seen" by auto
    have "a \<in> mentioned h" using a(1) refs_object_at_mentioned by blast
    then have "mentioned h - set (assign seen ?R) \<subset> mentioned h - set seen"
      using a by (auto simp: set_assign)
    then have "card (mentioned h - set (assign seen ?R)) < card (mentioned h - set seen)"
      by (intro psubset_card_mono) (simp_all add: finite_mentioned)
    then show ?thesis by simp
  qed
qed

declare visit.simps [simp del]

fun encode_val :: "addr list \<Rightarrow> jsval \<Rightarrow> encval" where
  "encode_val seen (Prim p) = Lit p"
| "encode_val seen (Ref a) = Back (index_of seen a)"

definition encode_obj :: "addr list \<Rightarrow> obj \<Rightarrow> slot" where
  "encode_obj seen ob = map (\<lambda>(f, v). (f, encode_val seen v)) ob"

text \<open>
  Modelled from the spec: \<open>encode\<close> of section 4.1, the \<open>stringify\<close> that the source imports
  from \<open>flatted\<close> (not under src): the slots of the objects the root reaches, in the order of
  their first visit, the root first.
\<close>

definition stringify :: "graph \<Rightarrow> flatted" where
  "stringify g = (case g of (h, r) \<Rightarrow>
     (let seen = visit h [r] 0 in map (\<lambda>a. encode_obj seen (object_at h a)) seen))"

text \<open>
  Modelled from the spec: decoding (section 4.1) "first materialize[s] all slots in traversal
  order as empty shells, then patch[es] fields in a second pass, resolving back-references to
  already-materialized shells"; "malformed input (dangling slot reference, truncated stream)
  fails with a CorruptPayload error". The root is the object of slot 0.
\<close>

fun decode_val :: "encval \<Rightarrow> jsval" where
  "decode_val (Lit p) = Prim p"
| "decode_val (Back j) = Ref j"

definition decode_obj :: "slot \<Rightarrow> obj" where
  "decode_obj s = map (\<lambda>(f, v). (f, decode_val v)) s"

fun dangling :: "nat \<Rightarrow> encval \<Rightarrow> bool" where
  "dangling n (Lit p) = False"
| "dangling n (Back j) = (n \<le> j)"

definition malformed :: "flatted \<Rightarrow> bool" where
  "malformed slots =
     (slots = [] \<or> list_ex (\<lambda>s. list_ex (\<lambda>(f, v). dangling (length slots) v) s) slots)"

definition patch :: "flatted \<Rightarrow> heap \<Rightarrow> heap" where
  "patch slots shells =
     fold (\<lambda>k sh. sh[k := decode_obj (slots ! k)]) [0..<length slots] shells"

text \<open>
  Modelled from the spec: \<open>decode\<close> of section 4.1, the \<open>parse\<close> that the source imports from
  \<open>flatted\<close> (not under src): \<open>CorruptPayload\<close> on malformed input, else the shells patched.
\<close>

definition parse :: "flatted \<Rightarrow> error + graph" where
  "parse slots =
     (if malformed slots then Inl CorruptPayload
      else Inr (patch slots (replicate (length slots) []), 0))"

section \<open>The execution store\<close>

text \<open>A \<open>Date\<close> is its number of milliseconds since the epoch.\<close>

type_synonym date = int

datatype WorkflowExecuteMode = Manual | Trigger | Webhook | Retry | Internal

datatype ExecutionStatus = New | Running | Success | Error | Canceled | Crashed | Waiting

record IWorkflowBase =
  workflow_id :: "string option"
  workflow_name :: string

text \<open>
  The columns of \<open>ExecutionEntity\<close>. The type of the key is a parameter: a stored row has a
  \<open>string\<close>, the argument of \<open>createNewExecution\<close> may have none (\<open>string option\<close>). The
  source's \<open>id\<close> is \<open>id'\<close> here.
\<close>

record 'i ExecutionFields =
  id' :: 'i
  workflowId :: string
  mode :: WorkflowExecuteMode
  status :: ExecutionStatus
  startedAt :: date
  stoppedAt :: "date option"
  waitTill :: "date option"
  finished :: bool
  retryOf :: "string option"
  retrySuccessId :: "string option"

type_synonym ExecutionEntity = "string ExecutionFields"

text \<open>
  A row of \<open>ExecutionData\<close>: columns \<open>executionId\<close>, \<open>data\<close> and \<open>workflowData\<close> (the last
  two prefixed, the name being that of the fields of \<open>IExecution\<close> below).
\<close>

record ExecutionData =
  executionId :: string
  ed_data :: flatted
  ed_workflowData :: IWorkflowBase

record ExecutionMetadata =
  md_executionId :: string
  md_key :: string
  md_value :: string

text \<open>
  \<open>{ ...rest, data, workflowData }\<close>: \<open>IExecutionDb\<close> (no key yet, data as a graph),
  \<open>IExecutionResponse\<close> (data as a graph) and \<open>IExecutionFlattedDb\<close> (data as stored).
\<close>

record ('i, 'd) IExecution =
  rest :: "'i ExecutionFields"
  data :: 'd
  workflowData :: IWorkflowBase

type_synonym IExecutionDb = "(string option, graph) IExecution"

type_synonym IExecutionResponse = "(string, graph) IExecution"

type_synonym IExecutionFlattedDb = "(string, flatted) IExecution"

text \<open>
  The database: the three tables, and the binary-data manager beside it (the execution ids
  that have payloads, and the log of the calls of \<open>deleteBinaryDataByExecutionId\<close>).
\<close>

record store =
  execution_entity :: "ExecutionEntity list"
  execution_data :: "ExecutionData list"
  execution_metadata :: "ExecutionMetadata list"
  binaryData :: "string list"
  cleanupCalls :: "string list"

text \<open>
  What the source takes from outside: the writes the database rejects, the executions whose
  binary cleanup rejects, the key the database generates for a new row, whether advanced
  filters are enabled, whether the relation \<open>executionData\<close> of \<open>ExecutionEntity\<close> (whose
  declaration is not under src) is loaded with every row or only when \<open>relations\<close> names it,
  and the own properties and the stack of a \<open>WorkflowOperationError\<close>.
\<close>

datatype db_write =
    SaveExecution
  | SaveExecutionData
  | UpdateExecution
  | UpdateExecutionData
  | DeleteExecution

record env =
  db_rejects :: "db_write \<Rightarrow> bool"
  binary_rejects :: "string \<Rightarrow> bool"
  generated_id :: "ExecutionEntity list \<Rightarrow> string"
  isAdvancedExecutionFiltersEnabled :: bool
  eager_executionData :: bool
  error_fields :: "(string \<times> prim) list"
  error_stack :: string

subsection \<open>Reading\<close>

text \<open>
  \<open>FindManyOptions\<close>: the \<open>where\<close> clause as a predicate, \<open>order\<close> as an ascending sort key,
  \<open>relations\<close> as the list of relation names (\<open>select\<close> only narrows the columns read).
\<close>

record FindManyOptions =
  fm_where :: "ExecutionEntity \<Rightarrow> bool"
  fm_order :: "(ExecutionEntity \<Rightarrow> int) option"
  fm_relations :: "string list"

text \<open>The \<open>options\<close> argument of the two finders; an absent option is \<open>False\<close> or \<open>None\<close>.\<close>

record FindOptions =
  includeData :: bool
  includeWorkflowData :: bool
  unflattenData :: bool
  fo_where :: "(ExecutionEntity \<Rightarrow> bool) option"

definition no_options :: FindOptions where
  "no_options = \<lparr>includeData = False, includeWorkflowData = False, unflattenData = False,
                  fo_where = None\<rparr>"

text \<open>
  An entity as \<open>find\<close> returns it: the columns, and the property \<open>executionData\<close>, which is
  \<open>None\<close> (\<open>undefined\<close> or \<open>null\<close>) when the relation was not loaded or has no row.
\<close>

type_synonym LoadedExecution = "ExecutionEntity \<times> ExecutionData option"

definition load_relations :: "env \<Rightarrow> store \<Rightarrow> string list \<Rightarrow> ExecutionEntity \<Rightarrow> LoadedExecution" where
  "load_relations ev st rels e =
     (e, if ''executionData'' \<in> set rels \<or> eager_executionData ev
         then List.find (\<lambda>d. executionId d = id' e) (execution_data st)
         else None)"

definition find_many :: "env \<Rightarrow> store \<Rightarrow> FindManyOptions \<Rightarrow> LoadedExecution list" where
  "find_many ev st q =
     (let rows = filter (fm_where q) (execution_entity st);
          ordered = (case fm_order q of None \<Rightarrow> rows | Some key \<Rightarrow> sort_key key rows)
      in map (load_relations ev st (fm_relations q)) ordered)"

definition findOne :: "env \<Rightarrow> store \<Rightarrow> (ExecutionEntity \<Rightarrow> bool) \<Rightarrow> string list \<Rightarrow> LoadedExecution option" where
  "findOne ev st P rels =
     map_option (load_relations ev st rels) (List.find P (execution_entity st))"

text \<open>\<open>array.map\<close> with a callback that may throw: the first exception ends it.\<close>

fun map_throwing :: "('a \<Rightarrow> error + 'b) \<Rightarrow> 'a list \<Rightarrow> error + 'b list" where
  "map_throwing f [] = Inr []"
| "map_throwing f (x # xs) =
     (case f x of
        Inl e \<Rightarrow> Inl e
      | Inr y \<Rightarrow> (case map_throwing f xs of Inl e \<Rightarrow> Inl e | Inr ys \<Rightarrow> Inr (y # ys)))"

text \<open>
  The two object literals of the finders. \<open>execution.executionData.data\<close> is a property read
  through \<open>execution.executionData\<close>: a \<open>TypeError\<close> when that is \<open>undefined\<close> or \<open>null\<close>.
\<close>

definition as_response :: "LoadedExecution \<Rightarrow> error + (IExecutionFlattedDb + IExecutionResponse)" where
  "as_response ex = (case ex of (rest', executionData) \<Rightarrow>
     (case executionData of
        None \<Rightarrow> Inl TypeError
      | Some d \<Rightarrow>
          (case parse (ed_data d) of
             Inl e \<Rightarrow> Inl e
           | Inr g \<Rightarrow> Inr (Inr \<lparr>rest = rest', data = g, workflowData = ed_workflowData d\<rparr>))))"

definition as_flatted :: "LoadedExecution \<Rightarrow> error + (IExecutionFlattedDb + IExecutionResponse)" where
  "as_flatted ex = (case ex of (rest', executionData) \<Rightarrow>
     (case executionData of
        None \<Rightarrow> Inl TypeError
      | Some d \<Rightarrow> Inr (Inl \<lparr>rest = rest', data = ed_data d, workflowData = ed_workflowData d\<rparr>)))"

definition findMultipleExecutions ::
  "env \<Rightarrow> store \<Rightarrow> FindManyOptions \<Rightarrow> FindOptions
     \<Rightarrow> error + (IExecutionFlattedDb + IExecutionResponse) list" where
  "findMultipleExecutions ev st queryParams options =
     (let queryParams' =
            (if includeData options \<or> includeWorkflowData options
             then queryParams\<lparr>fm_relations := fm_relations queryParams @ [''executionData'']\<rparr>
             else queryParams);
          executions = find_many ev st queryParams'
      in if includeData options \<and> unflattenData options
         then map_throwing as_response executions
         else map_throwing as_flatted executions)"

definition findSingleExecution ::
  "env \<Rightarrow> store \<Rightarrow> string \<Rightarrow> FindOptions
     \<Rightarrow> error + (IExecutionFlattedDb + IExecutionResponse) option" where
  "findSingleExecution ev st i options =
     (let whereClause = (\<lambda>e. id' e = i \<and> (case fo_where options of None \<Rightarrow> True | Some w \<Rightarrow> w e));
          relations = (if includeData options \<or> includeWorkflowData options
                       then [''executionData''] else [])
      in case findOne ev st whereClause relations of
           None \<Rightarrow> Inr None
         | Some execution \<Rightarrow>
             (case (if includeData options \<and> unflattenData options
                    then as_response execution else as_flatted execution) of
                Inl e \<Rightarrow> Inl e
              | Inr r \<Rightarrow> Inr (Some r)))"

subsection \<open>Writing\<close>

text \<open>
  \<open>save\<close> of a repository inserts the row, or overwrites the row that has its key. Without a
  key the database generates one.
\<close>

definition upsert :: "('a \<Rightarrow> bool) \<Rightarrow> 'a \<Rightarrow> 'a list \<Rightarrow> 'a list" where
  "upsert same x rows =
     (if list_ex same rows then map (\<lambda>y. if same y then x else y) rows else rows @ [x])"

definition with_id :: "string \<Rightarrow> 'i ExecutionFields \<Rightarrow> ExecutionEntity" where
  "with_id i r =
     \<lparr>id' = i, workflowId = workflowId r, mode = mode r, status = status r,
      startedAt = startedAt r, stoppedAt = stoppedAt r, waitTill = waitTill r,
      finished = finished r, retryOf = retryOf r, retrySuccessId = retrySuccessId r\<rparr>"

definition save_execution :: "env \<Rightarrow> store \<Rightarrow> string option ExecutionFields \<Rightarrow> ExecutionEntity \<times> store" where
  "save_execution ev st r =
     (let i = (case id' r of Some i \<Rightarrow> i | None \<Rightarrow> generated_id ev (execution_entity st));
          e = with_id i r
      in (e, st\<lparr>execution_entity := upsert (\<lambda>x. id' x = i) e (execution_entity st)\<rparr>))"

definition save_execution_data :: "store \<Rightarrow> ExecutionData \<Rightarrow> store" where
  "save_execution_data st d =
     st\<lparr>execution_data := upsert (\<lambda>x. executionId x = executionId d) d (execution_data st)\<rparr>"

text \<open>
  \<open>createNewExecution\<close>: two awaited \<open>save\<close> calls, outside any transaction, so each is
  committed by itself and an exception of the second leaves the first in the database.
  The result is what the call returns or throws, and the database after it.
\<close>

definition createNewExecution :: "env \<Rightarrow> store \<Rightarrow> IExecutionDb \<Rightarrow> (error + ExecutionEntity) \<times> store" where
  "createNewExecution ev st execution =
     (if db_rejects ev SaveExecution then (Inl PersistenceError, st)
      else (case save_execution ev st (rest execution) of (newExecution, st1) \<Rightarrow>
        if db_rejects ev SaveExecutionData then (Inl PersistenceError, st1)
        else (Inr newExecution,
              save_execution_data st1
                \<lparr>executionId = id' newExecution, ed_data = stringify (data execution),
                 ed_workflowData = workflowData execution\<rparr>)))"

text \<open>The states of the database that \<open>createNewExecution\<close> commits, in order.\<close>

definition createNewExecution_commits :: "env \<Rightarrow> store \<Rightarrow> IExecutionDb \<Rightarrow> store list" where
  "createNewExecution_commits ev st execution =
     (if db_rejects ev SaveExecution then []
      else (case save_execution ev st (rest execution) of (newExecution, st1) \<Rightarrow>
        st1 # (if db_rejects ev SaveExecutionData then []
               else [save_execution_data st1
                       \<lparr>executionId = id' newExecution, ed_data = stringify (data execution),
                        ed_workflowData = workflowData execution\<rparr>])))"

text \<open>
  \<open>Partial<IExecutionResponse>\<close>: \<open>None\<close> is an absent key. A nullable column has a second
  \<open>option\<close>: \<open>Some None\<close> writes \<open>null\<close>.
\<close>

record PartialExecution =
  p_id :: "string option"
  p_data :: "graph option"
  p_workflowData :: "IWorkflowBase option"
  p_workflowId :: "string option"
  p_mode :: "WorkflowExecuteMode option"
  p_status :: "ExecutionStatus option"
  p_startedAt :: "date option"
  p_stoppedAt :: "date option option"
  p_waitTill :: "date option option"
  p_finished :: "bool option"
  p_retryOf :: "string option option"
  p_retrySuccessId :: "string option option"

text \<open>\<open>Object.keys(executionInformation).length > 0\<close>\<close>

definition has_executionInformation :: "PartialExecution \<Rightarrow> bool" where
  "has_executionInformation p =
     (p_workflowId p \<noteq> None \<or> p_mode p \<noteq> None \<or> p_status p \<noteq> None \<or> p_startedAt p \<noteq> None
      \<or> p_stoppedAt p \<noteq> None \<or> p_waitTill p \<noteq> None \<or> p_finished p \<noteq> None
      \<or> p_retryOf p \<noteq> None \<or> p_retrySuccessId p \<noteq> None)"

definition or_else :: "'a option \<Rightarrow> 'a \<Rightarrow> 'a" where
  "or_else x d = (case x of None \<Rightarrow> d | Some v \<Rightarrow> v)"

definition set_executionInformation :: "PartialExecution \<Rightarrow> ExecutionEntity \<Rightarrow> ExecutionEntity" where
  "set_executionInformation p e =
     e\<lparr>workflowId := or_else (p_workflowId p) (workflowId e),
       mode := or_else (p_mode p) (mode e),
       status := or_else (p_status p) (status e),
       startedAt := or_else (p_startedAt p) (startedAt e),
       stoppedAt := or_else (p_stoppedAt p) (stoppedAt e),
       waitTill := or_else (p_waitTill p) (waitTill e),
       finished := or_else (p_finished p) (finished e),
       retryOf := or_else (p_retryOf p) (retryOf e),
       retrySuccessId := or_else (p_retrySuccessId p) (retrySuccessId e)\<rparr>"

definition set_executionData :: "PartialExecution \<Rightarrow> ExecutionData \<Rightarrow> ExecutionData" where
  "set_executionData p d =
     d\<lparr>ed_workflowData := or_else (p_workflowData p) (ed_workflowData d),
       ed_data := or_else (map_option stringify (p_data p)) (ed_data d)\<rparr>"

text \<open>\<open>manager.transaction\<close>: the writes of the body are committed together, or none is.\<close>

definition transaction :: "(store \<Rightarrow> error + store) \<Rightarrow> store \<Rightarrow> (error + unit) \<times> store" where
  "transaction body st = (case body st of Inl e \<Rightarrow> (Inl e, st) | Inr st' \<Rightarrow> (Inr (), st'))"

definition update_execution :: "env \<Rightarrow> string \<Rightarrow> PartialExecution \<Rightarrow> store \<Rightarrow> error + store" where
  "update_execution ev i p st =
     (if db_rejects ev UpdateExecution then Inl PersistenceError
      else Inr (st\<lparr>execution_entity :=
                    map (\<lambda>e. if id' e = i then set_executionInformation p e else e)
                      (execution_entity st)\<rparr>))"

definition update_execution_data :: "env \<Rightarrow> string \<Rightarrow> PartialExecution \<Rightarrow> store \<Rightarrow> error + store" where
  "update_execution_data ev i p st =
     (if db_rejects ev UpdateExecutionData then Inl PersistenceError
      else Inr (st\<lparr>execution_data :=
                    map (\<lambda>d. if executionId d = i then set_executionData p d else d)
                      (execution_data st)\<rparr>))"

definition updateExistingExecution ::
  "env \<Rightarrow> store \<Rightarrow> string \<Rightarrow> PartialExecution \<Rightarrow> (error + unit) \<times> store" where
  "updateExistingExecution ev st i execution =
     transaction (\<lambda>tm.
       case (if has_executionInformation execution
             then update_execution ev i execution tm else Inr tm) of
         Inl e \<Rightarrow> Inl e
       | Inr tm1 \<Rightarrow>
           (if p_data execution \<noteq> None \<or> p_workflowData execution \<noteq> None
            then update_execution_data ev i execution tm1
            else Inr tm1)) st"

text \<open>
  Modelled from the spec: the declarations of the entities (their foreign keys) are not under
  src. Section 3: "Deleting an ExecutionRecord deletes its ExecutionDataRecord, its metadata
  entries".
\<close>

definition delete_rows :: "store \<Rightarrow> string \<Rightarrow> store" where
  "delete_rows st i =
     st\<lparr>execution_entity := filter (\<lambda>e. id' e \<noteq> i) (execution_entity st),
        execution_data := filter (\<lambda>d. executionId d \<noteq> i) (execution_data st),
        execution_metadata := filter (\<lambda>m. md_executionId m \<noteq> i) (execution_metadata st)\<rparr>"

text \<open>
  \<open>BinaryDataManager.getInstance().deleteBinaryDataByExecutionId\<close>: the call is logged; it
  rejects, or removes the payloads of the execution.
\<close>

definition deleteBinaryDataByExecutionId :: "env \<Rightarrow> store \<Rightarrow> string \<Rightarrow> (error + unit) \<times> store" where
  "deleteBinaryDataByExecutionId ev st i =
     (let st1 = st\<lparr>cleanupCalls := cleanupCalls st @ [i]\<rparr>
      in if binary_rejects ev i then (Inl BinaryDataError, st1)
         else (Inr (), st1\<lparr>binaryData := removeAll i (binaryData st1)\<rparr>))"

text \<open>\<open>deleteExecution\<close>: the cleanup is awaited with no \<open>catch\<close>, then the rows are deleted.\<close>

definition deleteExecution :: "env \<Rightarrow> store \<Rightarrow> string \<Rightarrow> (error + unit) \<times> store" where
  "deleteExecution ev st i =
     (case deleteBinaryDataByExecutionId ev st i of
        (Inl e, st1) \<Rightarrow> (Inl e, st1)
      | (Inr u, st1) \<Rightarrow>
          (if db_rejects ev DeleteExecution then (Inl PersistenceError, st1)
           else (Inr (), delete_rows st1 i)))"

subsection \<open>Bulk deletion\<close>

record IGetExecutionsQueryFilter =
  f_status :: "ExecutionStatus list option"
  f_finished :: "bool option"
  f_metadata :: "(string \<times> string) list option"
  f_startedAfter :: "date option"
  f_startedBefore :: "date option"
  f_workflowId :: "string option"

text \<open>
  \<open>parseFiltersToQueryBuilder\<close>, as the condition it adds to the query. The tests of the
  source are JavaScript truth tests: \<open>finished: false\<close> and an empty \<open>workflowId\<close> add nothing.
  The metadata clauses are all on the one joined row \<open>md\<close>.
\<close>

definition parseFiltersToQueryBuilder ::
  "env \<Rightarrow> store \<Rightarrow> IGetExecutionsQueryFilter option \<Rightarrow> ExecutionEntity \<Rightarrow> bool" where
  "parseFiltersToQueryBuilder ev st filters e =
     (case filters of
        None \<Rightarrow> True
      | Some f \<Rightarrow>
          (case f_status f of None \<Rightarrow> True | Some ss \<Rightarrow> status e \<in> set ss)
          \<and> (case f_finished f of Some True \<Rightarrow> finished e | _ \<Rightarrow> True)
          \<and> (case f_metadata f of
                None \<Rightarrow> True
              | Some mds \<Rightarrow>
                  \<not> isAdvancedExecutionFiltersEnabled ev \<or> mds = []
                  \<or> list_ex (\<lambda>md. md_executionId md = id' e
                                \<and> list_all (\<lambda>(k, v). md_key md = k \<and> md_value md = v) mds)
                       (execution_metadata st))
          \<and> (case f_startedAfter f of None \<Rightarrow> True | Some t \<Rightarrow> t \<le> startedAt e)
          \<and> (case f_startedBefore f of None \<Rightarrow> True | Some t \<Rightarrow> startedAt e \<le> t)
          \<and> (case f_workflowId f of None \<Rightarrow> True | Some w \<Rightarrow> w = [] \<or> workflowId e = w))"

record DeleteConditions =
  deleteBefore :: "date option"
  ids :: "string list option"

text \<open>The rows the query of \<open>deleteExecutions\<close> selects.\<close>

definition deleteExecutions_query ::
  "env \<Rightarrow> store \<Rightarrow> IGetExecutionsQueryFilter option \<Rightarrow> string list \<Rightarrow> DeleteConditions
     \<Rightarrow> ExecutionEntity list" where
  "deleteExecutions_query ev st filters accessibleWorkflowIds deleteConditions =
     filter (\<lambda>e. workflowId e \<in> set accessibleWorkflowIds
                \<and> (case deleteBefore deleteConditions of
                      Some t \<Rightarrow> startedAt e \<le> t \<and> parseFiltersToQueryBuilder ev st filters e
                    | None \<Rightarrow>
                        (case ids deleteConditions of
                           Some is \<Rightarrow> id' e \<in> set is
                         | None \<Rightarrow> True)))
       (execution_entity st)"

text \<open>
  \<open>deleteExecutions\<close>: after the test of the conditions, the source runs the query; all that
  follows \<open>const executions = await query.getMany()\<close> is commented out.
\<close>

definition deleteExecutions ::
  "env \<Rightarrow> store \<Rightarrow> IGetExecutionsQueryFilter option \<Rightarrow> string list \<Rightarrow> DeleteConditions
     \<Rightarrow> (error + unit) \<times> store" where
  "deleteExecutions ev st filters accessibleWorkflowIds deleteConditions =
     (if deleteBefore deleteConditions = None \<and> ids deleteConditions = None
      then (Inl InvalidRequest, st)
      else (let executions =
                  deleteExecutions_query ev st filters accessibleWorkflowIds deleteConditions
            in (Inr (), st)))"

section \<open>The wait tracker\<close>

text \<open>
  The timers of the runtime that are pending: the handle \<open>setTimeout\<close> returned, the
  execution its callback \<open>() => this.startExecution(executionId)\<close> starts, and the delay it
  was given.
\<close>

record Timeout =
  handle :: nat
  callback_executionId :: string
  delay :: int

text \<open>An entry \<open>{ executionId, timer }\<close> of \<open>waitingExecutions\<close>.\<close>

record WaitingExecution =
  we_executionId :: string
  timer :: nat

record WaitTracker =
  waitingExecutions :: "string \<Rightarrow> WaitingExecution option"
  timeouts :: "Timeout list"
  next_handle :: nat

definition setTimeout :: "WaitTracker \<Rightarrow> string \<Rightarrow> int \<Rightarrow> nat \<times> WaitTracker" where
  "setTimeout tr i d =
     (next_handle tr,
      tr\<lparr>timeouts := timeouts tr @ [\<lparr>handle = next_handle tr, callback_executionId = i, delay = d\<rparr>],
         next_handle := Suc (next_handle tr)\<rparr>)"

definition clearTimeout :: "WaitTracker \<Rightarrow> nat \<Rightarrow> WaitTracker" where
  "clearTimeout tr t = tr\<lparr>timeouts := filter (\<lambda>x. handle x \<noteq> t) (timeouts tr)\<rparr>"



definition fields_of :: "IExecutionFlattedDb + IExecutionResponse \<Rightarrow> ExecutionEntity" where
  "fields_of ex = (case ex of Inl x \<Rightarrow> rest x | Inr x \<Rightarrow> rest x)"

text \<open>
  The \<open>for\<close> loop of \<open>getWaitingExecutions\<close>. \<open>clock n\<close> is what \<open>new Date().getTime()\<close>
  returns in iteration \<open>n\<close>. \<open>execution.waitTill!.getTime()\<close> is a \<open>TypeError\<close> on \<open>null\<close>.
\<close>

fun arm_timers ::
  "(nat \<Rightarrow> date) \<Rightarrow> nat \<Rightarrow> WaitTracker \<Rightarrow> (IExecutionFlattedDb + IExecutionResponse) list
     \<Rightarrow> (error + unit) \<times> WaitTracker" where
  "arm_timers clock n tr [] = (Inr (), tr)"
| "arm_timers clock n tr (execution # executions) =
     (let i = id' (fields_of execution)
      in if waitingExecutions tr i = None
         then (case waitTill (fields_of execution) of
                 None \<Rightarrow> (Inl TypeError, tr)
               | Some w \<Rightarrow>
                   (let triggerTime = w - clock n
                    in case setTimeout tr i triggerTime of (t, tr1) \<Rightarrow>
                         arm_timers clock (Suc n)
                           (tr1\<lparr>waitingExecutions :=
                                  (waitingExecutions tr1)(i \<mapsto> \<lparr>we_executionId = i, timer = t\<rparr>)\<rparr>)
                           executions))
         else arm_timers clock (Suc n) tr executions)"

text \<open>
  The query of the sweep: \<open>waitTill <= now + 70000\<close> (never true of \<open>null\<close>) and
  \<open>status: Not('crashed')\<close>, ordered by \<open>waitTill\<close>. The SQLite branch of the source writes
  the same bound as a string.
\<close>

definition findQuery :: "date \<Rightarrow> FindManyOptions" where
  "findQuery now =
     \<lparr>fm_where = (\<lambda>e. (case waitTill e of None \<Rightarrow> False | Some w \<Rightarrow> w \<le> now + 70000)
                      \<and> status e \<noteq> Crashed),
      fm_order = Some (\<lambda>e. case waitTill e of None \<Rightarrow> 0 | Some w \<Rightarrow> w),
      fm_relations = []\<rparr>"

definition getWaitingExecutions ::
  "env \<Rightarrow> store \<Rightarrow> WaitTracker \<Rightarrow> date \<Rightarrow> (nat \<Rightarrow> date) \<Rightarrow> (error + unit) \<times> WaitTracker" where
  "getWaitingExecutions ev st tr now clock =
     (case findMultipleExecutions ev st (findQuery now) no_options of
        Inl e \<Rightarrow> (Inl e, tr)
      | Inr executions \<Rightarrow>
          (if executions = [] then (Inr (), tr)
           else arm_timers clock 0 tr executions))"

subsection \<open>Cancellation\<close>

fun set_field :: "string \<Rightarrow> jsval \<Rightarrow> obj \<Rightarrow> obj" where
  "set_field f v [] = [(f, v)]"
| "set_field f v ((g, w) # fs) = (if g = f then (f, v) # fs else (g, w) # set_field f v fs)"

text \<open>
  \<open>{ ...error, message: error.message, stack: error.stack }\<close> for
  \<open>new WorkflowOperationError('Workflow-Execution has been canceled!')\<close>
\<close>

definition cancel_error :: "env \<Rightarrow> obj" where
  "cancel_error ev =
     set_field ''stack'' (Prim (Str (error_stack ev)))
       (set_field ''message'' (Prim (Str ''Workflow-Execution has been canceled!''))
          (map (\<lambda>(f, p). (f, Prim p)) (error_fields ev)))"

text \<open>
  \<open>execution.data.resultData.error = { ... }\<close>: a new object, and a write to the field
  \<open>error\<close> of the object \<open>resultData\<close> of the root; a \<open>TypeError\<close> when \<open>resultData\<close> is not an
  object.
\<close>

definition set_resultData_error :: "env \<Rightarrow> graph \<Rightarrow> error + graph" where
  "set_resultData_error ev g = (case g of (h, r) \<Rightarrow>
     (case map_of (object_at h r) ''resultData'' of
        Some (Ref a) \<Rightarrow>
          (if a < length h
           then Inr ((h @ [cancel_error ev])[a := set_field ''error'' (Ref (length h)) (h ! a)], r)
           else Inl TypeError)
      | _ \<Rightarrow> Inl TypeError))"

record IExecutionsStopData =
  stop_mode :: WorkflowExecuteMode
  stop_startedAt :: date
  stop_stoppedAt :: "date option"
  stop_finished :: bool
  stop_status :: ExecutionStatus

text \<open>The execution of \<open>stopExecution\<close> after its three assignments, with every key present.\<close>

definition as_partial :: "IExecutionResponse \<Rightarrow> PartialExecution" where
  "as_partial execution =
     \<lparr>p_id = Some (id' (rest execution)),
      p_data = Some (data execution),
      p_workflowData = Some (workflowData execution),
      p_workflowId = Some (workflowId (rest execution)),
      p_mode = Some (mode (rest execution)),
      p_status = Some (status (rest execution)),
      p_startedAt = Some (startedAt (rest execution)),
      p_stoppedAt = Some (stoppedAt (rest execution)),
      p_waitTill = Some (waitTill (rest execution)),
      p_finished = Some (finished (rest execution)),
      p_retryOf = Some (retryOf (rest execution)),
      p_retrySuccessId = Some (retrySuccessId (rest execution))\<rparr>"

text \<open>
  Modelled from the spec: \<open>Db.collections.Execution.update\<close> and
  \<open>ResponseHelper.flattenExecutionData\<close>, which \<open>stopExecution\<close> calls to write the
  execution back, are not under src. Section 4.3: "persist via \<open>updateExecution\<close>".
\<close>

definition Db_update :: "env \<Rightarrow> store \<Rightarrow> string \<Rightarrow> IExecutionResponse \<Rightarrow> (error + unit) \<times> store" where
  "Db_update ev st i execution = updateExistingExecution ev st i (as_partial execution)"

definition stop_options :: FindOptions where
  "stop_options = \<lparr>includeData = True, includeWorkflowData = True, unflattenData = True,
                    fo_where = None\<rparr>"

text \<open>
  \<open>stopExecution\<close>: \<open>now\<close> is the \<open>new Date()\<close> of \<open>stoppedAt\<close>. The result is what the call
  returns or throws, the tracker and the database after it.
\<close>

definition stopExecution ::
  "env \<Rightarrow> store \<Rightarrow> WaitTracker \<Rightarrow> string \<Rightarrow> date
     \<Rightarrow> (error + IExecutionsStopData) \<times> WaitTracker \<times> store" where
  "stopExecution ev st tr i now =
     (let tr1 = (case waitingExecutions tr i of
                   None \<Rightarrow> tr
                 | Some w \<Rightarrow> (clearTimeout tr (timer w))
                               \<lparr>waitingExecutions := (waitingExecutions tr)(i := None)\<rparr>)
      in case findSingleExecution ev st i stop_options of
           Inl e \<Rightarrow> (Inl e, tr1, st)
         | Inr None \<Rightarrow> (Inl NotFound, tr1, st)
         | Inr (Some (Inl flat)) \<Rightarrow>
             (if waitTill (rest flat) = None then (Inl NotFound, tr1, st)
              else (Inl TypeError, tr1, st))
         | Inr (Some (Inr execution)) \<Rightarrow>
             (if waitTill (rest execution) = None then (Inl NotFound, tr1, st)
              else (case set_resultData_error ev (data execution) of
                      Inl e \<Rightarrow> (Inl e, tr1, st)
                    | Inr data' \<Rightarrow>
                        (let execution' =
                               execution\<lparr>data := data',
                                 rest := (rest execution)\<lparr>stoppedAt := Some now, waitTill := None,
                                                           status := Canceled\<rparr>\<rparr>
                         in case Db_update ev st i execution' of
                              (Inl e, st') \<Rightarrow> (Inl e, tr1, st')
                            | (Inr u, st') \<Rightarrow>
                                (Inr \<lparr>stop_mode = mode (rest execution'),
                                      stop_startedAt = startedAt (rest execution'),
                                      stop_stoppedAt = stoppedAt (rest execution'),
                                      stop_finished = finished (rest execution'),
                                      stop_status = status (rest execution')\<rparr>,
                                 tr1, st')))))"

section \<open>Notions of the specification\<close>

text \<open>
  The objects a graph can reach from its root, a renaming of addresses, the slot the codec
  gives to an object, and the value at the end of a path of field names.
\<close>

definition edges :: "heap \<Rightarrow> (addr \<times> addr) set" where
  "edges h = {(a, b). b \<in> set (refs_of (object_at h a))}"

definition reach :: "heap \<Rightarrow> addr \<Rightarrow> addr set" where
  "reach h r = (edges h)\<^sup>* `` {r}"

fun map_ref :: "(addr \<Rightarrow> addr) \<Rightarrow> jsval \<Rightarrow> jsval" where
  "map_ref \<phi> (Prim p) = Prim p"
| "map_ref \<phi> (Ref a) = Ref (\<phi> a)"

definition map_obj :: "(addr \<Rightarrow> addr) \<Rightarrow> obj \<Rightarrow> obj" where
  "map_obj \<phi> ob = map (\<lambda>(f, v). (f, map_ref \<phi> v)) ob"

definition slot_of :: "graph \<Rightarrow> addr \<Rightarrow> nat" where
  "slot_of g = (case g of (h, r) \<Rightarrow> index_of (visit h [r] 0))"

fun walk :: "heap \<Rightarrow> jsval \<Rightarrow> string list \<Rightarrow> jsval option" where
  "walk h v [] = Some v"
| "walk h (Prim p) (f # fs) = None"
| "walk h (Ref a) (f # fs) =
     (case map_of (object_at h a) f of None \<Rightarrow> None | Some v \<Rightarrow> walk h v fs)"

definition in_reach :: "heap \<Rightarrow> addr \<Rightarrow> jsval \<Rightarrow> bool" where
  "in_reach h r v = (case v of Prim p \<Rightarrow> True | Ref a \<Rightarrow> a \<in> reach h r)"

definition scanned :: "heap \<Rightarrow> addr list \<Rightarrow> nat \<Rightarrow> bool" where
  "scanned h seen k = (\<forall>j<k. set (refs_of (object_at h (seen ! j))) \<subseteq> set seen)"

text \<open>The data record of an execution is stored and decodes.\<close>

definition readable :: "store \<Rightarrow> string \<Rightarrow> bool" where
  "readable st i =
     (case List.find (\<lambda>d. executionId d = i) (execution_data st) of
        None \<Rightarrow> False
      | Some d \<Rightarrow> (case parse (ed_data d) of Inl e \<Rightarrow> False | Inr g \<Rightarrow> True))"

definition canceled :: "date \<Rightarrow> ExecutionEntity \<Rightarrow> ExecutionEntity" where
  "canceled now e = e\<lparr>stoppedAt := Some now, waitTill := None, status := Canceled\<rparr>"

text \<open>The key of the row that \<open>createNewExecution\<close> saves.\<close>

definition new_key :: "env \<Rightarrow> store \<Rightarrow> IExecutionDb \<Rightarrow> string" where
  "new_key ev st execution =
     (case id' (rest execution) of Some i \<Rightarrow> i | None \<Rightarrow> generated_id ev (execution_entity st))"





section \<open>Example data\<close>

definition ok_env :: env where
  "ok_env = \<lparr>db_rejects = (\<lambda>w. False), binary_rejects = (\<lambda>i. False),
             generated_id = (\<lambda>rows. ''7''), isAdvancedExecutionFiltersEnabled = False,
             eager_executionData = False, error_fields = [(''severity'', Str ''warning'')],
             error_stack = ''at stopExecution''\<rparr>"

definition row1 :: ExecutionEntity where
  "row1 = \<lparr>id' = ''1'', workflowId = ''w'', mode = Manual, status = Waiting, startedAt = 1000,
           stoppedAt = None, waitTill = Some 5000, finished = False, retryOf = None,
           retrySuccessId = None\<rparr>"

definition graph1 :: graph where
  "graph1 = ([[(''message'', Prim (Str ''x''))],
              [(''next'', Ref 2), (''last'', Ref 0)],
              [(''resultData'', Ref 3), (''next'', Ref 1), (''last'', Ref 0)],
              [(''runData'', Ref 1)]], 2)"

definition workflow1 :: IWorkflowBase where
  "workflow1 = \<lparr>workflow_id = Some ''w'', workflow_name = ''My workflow''\<rparr>"

definition no_timers :: WaitTracker where
  "no_timers = \<lparr>waitingExecutions = (\<lambda>i. None), timeouts = [], next_handle = 0\<rparr>"

definition row2 :: ExecutionEntity where
  "row2 = \<lparr>id' = ''2'', workflowId = ''w'', mode = Trigger, status = Success, startedAt = 2000,
           stoppedAt = Some 2500, waitTill = None, finished = True, retryOf = None,
           retrySuccessId = None\<rparr>"

definition row3 :: ExecutionEntity where
  "row3 = \<lparr>id' = ''3'', workflowId = ''w'', mode = Webhook, status = New, startedAt = 3000,
           stoppedAt = None, waitTill = None, finished = False, retryOf = None,
           retrySuccessId = None\<rparr>"

definition store2 :: store where
  "store2 = \<lparr>execution_entity = [row1, row2, row3],
             execution_data = [\<lparr>executionId = ''1'', ed_data = stringify graph1,
                                ed_workflowData = workflow1\<rparr>,
                               \<lparr>executionId = ''2'', ed_data = stringify graph1,
                                ed_workflowData = workflow1\<rparr>],
             execution_metadata = [\<lparr>md_executionId = ''1'', md_key = ''k'', md_value = ''v''\<rparr>],
             binaryData = [''1''], cleanupCalls = []\<rparr>"

definition new_execution :: IExecutionDb where
  "new_execution =
     \<lparr>rest = \<lparr>id' = None, workflowId = ''w'', mode = Manual, status = New, startedAt = 7000,
               stoppedAt = None, waitTill = None, finished = False, retryOf = None,
               retrySuccessId = None\<rparr>,
      data = graph1, workflowData = workflow1\<rparr>"

definition set_running :: PartialExecution where
  "set_running = \<lparr>p_id = None, p_data = Some graph1, p_workflowData = None, p_workflowId = None,
                   p_mode = None, p_status = Some Running, p_startedAt = None, p_stoppedAt = None,
                   p_waitTill = None, p_finished = None, p_retryOf = None,
                   p_retrySuccessId = None\<rparr>"

definition cyclic_heap :: heap where
  "cyclic_heap = [[(''message'', Prim (Str ''boom''))],
                  [(''next'', Ref 2), (''error'', Ref 0)],
                  [(''next'', Ref 1), (''error'', Ref 0)]]"







section \<open>The codec: lemmas\<close>

lemma patch_prefix:
  "m \<le> length slots \<Longrightarrow> length sh = length slots \<Longrightarrow>
   fold (\<lambda>k sh. sh[k := decode_obj (slots ! k)]) [0..<m] sh
     = map decode_obj (take m slots) @ drop m sh"
proof (induction m)
  case 0
  then show ?case by simp
next
  case (Suc m)
  then have m: "m < length slots" "m < length sh" by simp_all
  have "fold (\<lambda>k sh. sh[k := decode_obj (slots ! k)]) [0..<Suc m] sh
          = (map decode_obj (take m slots) @ drop m sh)[m := decode_obj (slots ! m)]"
    using Suc by simp
  also have "\<dots> = map decode_obj (take m slots) @ (drop m sh)[0 := decode_obj (slots ! m)]"
    using m by (simp add: list_update_append)
  also have "(drop m sh)[0 := decode_obj (slots ! m)] = decode_obj (slots ! m) # drop (Suc m) sh"
    using m by (simp add: Cons_nth_drop_Suc [symmetric])
  finally show ?case using m by (simp add: take_Suc_conv_app_nth)
qed

lemma patch_shells: "patch slots (replicate (length slots) []) = map decode_obj slots"
  unfolding patch_def by (simp add: patch_prefix)

lemma decode_encode_obj: "decode_obj (encode_obj seen ob) = map_obj (index_of seen) ob"
proof -
  have "decode_val (encode_val seen v) = map_ref (index_of seen) v" for v
    by (cases v) simp_all
  then show ?thesis
    unfolding decode_obj_def encode_obj_def map_obj_def by (simp add: case_prod_unfold)
qed

lemma index_of_less: "a \<in> set xs \<Longrightarrow> index_of xs a < length xs"
  by (induction xs) auto

lemma nth_index_of: "a \<in> set xs \<Longrightarrow> xs ! index_of xs a = a"
  by (induction xs) auto

lemma index_of_nth: "distinct xs \<Longrightarrow> k < length xs \<Longrightarrow> index_of xs (xs ! k) = k"
proof (induction xs arbitrary: k)
  case Nil
  then show ?case by simp
next
  case (Cons x xs)
  then show ?case by (cases k) auto
qed

lemma assign_extends: "\<exists>ys. assign seen as = seen @ ys"
  unfolding assign_def
proof (induction as arbitrary: seen)
  case Nil
  then show ?case by simp
next
  case (Cons a as)
  show ?case
  proof (cases "a \<in> set seen")
    case True
    then show ?thesis using Cons [of seen] by simp
  next
    case False
    then show ?thesis using Cons [of "seen @ [a]"] by auto
  qed
qed

lemma distinct_assign: "distinct seen \<Longrightarrow> distinct (assign seen as)"
  unfolding assign_def by (induction as arbitrary: seen) auto

lemma visit_extends: "\<exists>ys. visit h seen k = seen @ ys"
proof (induction h seen k rule: visit.induct)
  case (1 h seen k)
  show ?case
  proof (cases "k < length seen")
    case True
    obtain zs where zs: "assign seen (refs_of (object_at h (seen ! k))) = seen @ zs"
      using assign_extends by blast
    from 1 [OF True] obtain ys where
      "visit h (assign seen (refs_of (object_at h (seen ! k)))) (Suc k)
         = assign seen (refs_of (object_at h (seen ! k))) @ ys" by blast
    then show ?thesis using True zs by (subst visit.simps) simp
  next
    case False
    then show ?thesis by (subst visit.simps) simp
  qed
qed

lemma visit_distinct: "distinct seen \<Longrightarrow> distinct (visit h seen k)"
proof (induction h seen k rule: visit.induct)
  case (1 h seen k)
  show ?case
  proof (cases "k < length seen")
    case True
    then show ?thesis
      using 1 by (subst visit.simps) (simp add: distinct_assign)
  next
    case False
    then show ?thesis using 1 by (subst visit.simps) simp
  qed
qed

lemma visit_closed:
  "k \<le> length seen \<Longrightarrow> scanned h seen k \<Longrightarrow>
   scanned h (visit h seen k) (length (visit h seen k))"
proof (induction h seen k rule: visit.induct)
  case (1 h seen k)
  show ?case
  proof (cases "k < length seen")
    case True
    let ?seen' = "assign seen (refs_of (object_at h (seen ! k)))"
    obtain zs where zs: "?seen' = seen @ zs" using assign_extends by blast
    have nth: "?seen' ! j = seen ! j" if "j \<le> k" for j
      using that True zs by (simp add: nth_append)
    have "scanned h ?seen' (Suc k)"
      unfolding scanned_def
    proof (intro allI impI)
      fix j assume j: "j < Suc k"
      show "set (refs_of (object_at h (?seen' ! j))) \<subseteq> set ?seen'"
      proof (cases "j = k")
        case True
        then show ?thesis using nth [of k] by (simp add: set_assign)
      next
        case False
        then have "j < k" using j by simp
        then have "set (refs_of (object_at h (seen ! j))) \<subseteq> set seen"
          using 1(3) unfolding scanned_def by blast
        then show ?thesis using nth [of j] \<open>j < k\<close> by (auto simp: set_assign)
      qed
    qed
    moreover have "Suc k \<le> length ?seen'" using True zs by simp
    ultimately have "scanned h (visit h ?seen' (Suc k)) (length (visit h ?seen' (Suc k)))"
      using 1(1) [OF True] by blast
    then show ?thesis using True by (subst (1 2) visit.simps) simp
  next
    case False
    then have "k = length seen" using 1(2) by simp
    then show ?thesis using 1(3) False by (subst (1 2) visit.simps) simp
  qed
qed

lemma reach_step: "a \<in> reach h r \<Longrightarrow> b \<in> set (refs_of (object_at h a)) \<Longrightarrow> b \<in> reach h r"
  unfolding reach_def edges_def by (auto intro: rtrancl_into_rtrancl)

lemma visit_sound: "set seen \<subseteq> reach h r \<Longrightarrow> set (visit h seen k) \<subseteq> reach h r"
proof (induction h seen k rule: visit.induct)
  case (1 h seen k)
  show ?case
  proof (cases "k < length seen")
    case True
    then have "seen ! k \<in> reach h r" using 1(2) by auto
    then have "set (assign seen (refs_of (object_at h (seen ! k)))) \<subseteq> reach h r"
      using 1(2) reach_step by (auto simp: set_assign)
    then show ?thesis using 1(1) [OF True] True by (subst visit.simps) simp
  next
    case False
    then show ?thesis using 1 by (subst visit.simps) simp
  qed
qed

lemma closed_complete:
  assumes "r \<in> set seen" and "scanned h seen (length seen)"
  shows "reach h r \<subseteq> set seen"
proof
  fix b assume "b \<in> reach h r"
  then have "(r, b) \<in> (edges h)\<^sup>*" by (simp add: reach_def)
  then show "b \<in> set seen"
  proof (induction rule: rtrancl_induct)
    case base
    then show ?case using assms(1) .
  next
    case (step a b)
    then obtain j where j: "j < length seen" "seen ! j = a" by (auto simp: in_set_conv_nth)
    then have "set (refs_of (object_at h a)) \<subseteq> set seen"
      using assms(2) unfolding scanned_def by blast
    then show ?case using step(2) by (auto simp: edges_def)
  qed
qed

lemma visit_root:
  "set (visit h [r] 0) = reach h r"
  "distinct (visit h [r] 0)"
  "visit h [r] 0 ! 0 = r"
  "visit h [r] 0 \<noteq> []"
proof -
  obtain ys where ys: "visit h [r] 0 = [r] @ ys" using visit_extends by blast
  show "visit h [r] 0 ! 0 = r" "visit h [r] 0 \<noteq> []" using ys by simp_all
  show "distinct (visit h [r] 0)" by (rule visit_distinct) simp
  have "scanned h (visit h [r] 0) (length (visit h [r] 0))"
    by (rule visit_closed) (simp_all add: scanned_def)
  moreover have "r \<in> set (visit h [r] 0)" using ys by simp
  ultimately have "reach h r \<subseteq> set (visit h [r] 0)" by (rule closed_complete [rotated])
  moreover have "set (visit h [r] 0) \<subseteq> reach h r"
    by (rule visit_sound) (simp add: reach_def)
  ultimately show "set (visit h [r] 0) = reach h r" by blast
qed


lemma ref_in_refs_of: "(f, Ref b) \<in> set ob \<Longrightarrow> b \<in> set (refs_of ob)"
  by (induction ob rule: refs_of.induct) auto

lemma encoded_not_malformed: "\<not> malformed (stringify (h, r))"
proof -
  let ?seen = "visit h [r] 0"
  have "\<not> dangling (length ?seen) (encode_val ?seen v)"
    if "a \<in> set ?seen" and "(f, v) \<in> set (object_at h a)" for a f v
  proof (cases v)
    case (Prim p)
    then show ?thesis by simp
  next
    case (Ref b)
    then have "b \<in> set (refs_of (object_at h a))" using that(2) ref_in_refs_of by blast
    moreover have "a \<in> reach h r" using that(1) by (simp add: visit_root(1))
    ultimately have "b \<in> reach h r" by (rule reach_step [rotated])
    then have "b \<in> set ?seen" by (simp add: visit_root(1))
    then have "index_of ?seen b < length ?seen" by (rule index_of_less)
    then show ?thesis using Ref by simp
  qed
  then show ?thesis
    unfolding malformed_def stringify_def
    by (auto simp: Let_def list_ex_iff encode_obj_def visit_root(4))
qed

lemma parse_stringify_eq:
  "parse (stringify (h, r))
     = Inr (map (\<lambda>a. map_obj (index_of (visit h [r] 0)) (object_at h a)) (visit h [r] 0), 0)"
proof -
  have "parse (stringify (h, r)) = Inr (map decode_obj (stringify (h, r)), 0)"
    using encoded_not_malformed [of h r] by (simp add: parse_def patch_shells)
  then show ?thesis
    by (simp add: stringify_def Let_def decode_encode_obj comp_def)
qed

lemma slot_of_bij:
  "bij_betw (index_of (visit h [r] 0)) (reach h r) {..<length (visit h [r] 0)}"
proof (rule bij_betwI')
  let ?seen = "visit h [r] 0"
  fix a b assume "a \<in> reach h r" "b \<in> reach h r"
  then have ab: "a \<in> set ?seen" "b \<in> set ?seen" by (simp_all add: visit_root(1))
  show "(index_of ?seen a = index_of ?seen b) = (a = b)"
  proof
    assume "index_of ?seen a = index_of ?seen b"
    then have "?seen ! index_of ?seen a = ?seen ! index_of ?seen b" by (rule arg_cong)
    then show "a = b" by (simp only: nth_index_of [OF ab(1)] nth_index_of [OF ab(2)])
  next
    assume "a = b"
    then show "index_of ?seen a = index_of ?seen b" by (rule arg_cong)
  qed
next
  let ?seen = "visit h [r] 0"
  fix a assume "a \<in> reach h r"
  then show "index_of ?seen a \<in> {..<length ?seen}"
    by (simp add: visit_root(1) index_of_less)
next
  let ?seen = "visit h [r] 0"
  fix k assume "k \<in> {..<length ?seen}"
  then have k: "k < length ?seen" by simp
  then have "?seen ! k \<in> reach h r" using visit_root(1) [of h r] nth_mem by blast
  moreover have "k = index_of ?seen (?seen ! k)"
    using index_of_nth [OF visit_root(2) k] by simp
  ultimately show "\<exists>a\<in>reach h r. k = index_of ?seen a" by blast
qed

lemma slot_of_root: "index_of (visit h [r] 0) r = 0"
proof -
  have "0 < length (visit h [r] 0)" using visit_root(4) [of h r] by simp
  from index_of_nth [OF visit_root(2) this] show ?thesis by (simp add: visit_root(3))
qed

lemma decoded_object:
  assumes "a \<in> reach h r"
  shows "map (\<lambda>a. map_obj (index_of (visit h [r] 0)) (object_at h a)) (visit h [r] 0)
           ! index_of (visit h [r] 0) a
         = map_obj (index_of (visit h [r] 0)) (object_at h a)"
proof -
  have a: "a \<in> set (visit h [r] 0)" using assms by (simp add: visit_root(1))
  then show ?thesis by (simp add: index_of_less nth_index_of)
qed

lemma map_of_map_obj: "map_of (map_obj \<phi> ob) f = map_option (map_ref \<phi>) (map_of ob f)"
  unfolding map_obj_def by (induction ob) auto

lemma field_in_reach:
  assumes "a \<in> reach h r" and "map_of (object_at h a) f = Some v"
  shows "in_reach h r v"
proof (cases v)
  case (Prim p)
  then show ?thesis by (simp add: in_reach_def)
next
  case (Ref b)
  then have "(f, Ref b) \<in> set (object_at h a)" using assms(2) by (simp add: map_of_SomeD)
  then have "b \<in> set (refs_of (object_at h a))" by (rule ref_in_refs_of)
  then show ?thesis using Ref assms(1) reach_step by (simp add: in_reach_def)
qed

lemma walk_in_reach: "in_reach h r v \<Longrightarrow> walk h v p = Some w \<Longrightarrow> in_reach h r w"
proof (induction p arbitrary: v)
  case Nil
  then show ?case by simp
next
  case (Cons f p)
  then show ?case
  proof (cases v)
    case (Prim x)
    then show ?thesis using Cons by simp
  next
    case (Ref a)
    then obtain u where u: "map_of (object_at h a) f = Some u" "walk h u p = Some w"
      using Cons(3) by (auto split: option.splits)
    have "a \<in> reach h r" using Cons(2) Ref by (simp add: in_reach_def)
    then have "in_reach h r u" using u(1) by (rule field_in_reach)
    then show ?thesis using Cons(1) u(2) by blast
  qed
qed

lemma walk_decoded:
  assumes h': "h' = map (\<lambda>a. map_obj (index_of (visit h [r] 0)) (object_at h a)) (visit h [r] 0)"
  shows "in_reach h r v \<Longrightarrow>
         walk h' (map_ref (index_of (visit h [r] 0)) v) p
           = map_option (map_ref (index_of (visit h [r] 0))) (walk h v p)"
proof (induction p arbitrary: v)
  case Nil
  then show ?case by simp
next
  case (Cons f p)
  let ?\<phi> = "index_of (visit h [r] 0)"
  show ?case
  proof (cases v)
    case (Prim x)
    then show ?thesis by simp
  next
    case (Ref a)
    then have a: "a \<in> reach h r" using Cons(2) by (simp add: in_reach_def)
    then have "?\<phi> a < length h'"
      using h' by (simp add: visit_root(1) index_of_less)
    then have ob: "object_at h' (?\<phi> a) = map_obj ?\<phi> (object_at h a)"
      using decoded_object [OF a] h' by (simp add: object_at_def)
    show ?thesis
    proof (cases "map_of (object_at h a) f")
      case None
      then show ?thesis using Ref ob by (simp add: map_of_map_obj)
    next
      case (Some u)
      then have "in_reach h r u" using a field_in_reach by blast
      then show ?thesis using Ref ob Some Cons(1) by (simp add: map_of_map_obj)
    qed
  qed
qed

lemma map_ref_inj:
  assumes "in_reach h r v" "in_reach h r w"
    and "map_ref (index_of (visit h [r] 0)) v = map_ref (index_of (visit h [r] 0)) w"
  shows "v = w"
proof (cases v)
  case (Prim p)
  then show ?thesis using assms(3) by (cases w) simp_all
next
  case (Ref a)
  then obtain b where b: "w = Ref b" using assms(3) by (cases w) simp_all
  have "a \<in> reach h r" "b \<in> reach h r"
    using assms(1,2) Ref b by (simp_all add: in_reach_def)
  moreover have "index_of (visit h [r] 0) a = index_of (visit h [r] 0) b"
    using assms(3) Ref b by simp
  ultimately have "a = b"
    using slot_of_bij [of h r] by (simp add: bij_betw_def inj_on_def)
  then show ?thesis using Ref b by simp
qed

section \<open>The store and the tracker: lemmas\<close>

lemma find_map_update:
  assumes "\<And>x. P x \<Longrightarrow> P (f x)"
  shows "List.find P (map (\<lambda>x. if P x then f x else x) xs) = map_option f (List.find P xs)"
  using assms by (induction xs) auto

lemma map_update_absent:
  "\<forall>x\<in>set xs. \<not> P x \<Longrightarrow> map (\<lambda>x. if P x then f x else x) xs = xs"
  by (induction xs) auto

lemma map_of_set_field: "map_of (set_field f v ob) g = (if g = f then Some v else map_of ob g)"
  by (induction f v ob rule: set_field.induct) auto

lemma findSingleExecution_stop:
  "findSingleExecution ev st i stop_options =
     (case List.find (\<lambda>e. id' e = i) (execution_entity st) of
        None \<Rightarrow> Inr None
      | Some e \<Rightarrow>
          (case List.find (\<lambda>d. executionId d = i) (execution_data st) of
             None \<Rightarrow> Inl TypeError
           | Some d \<Rightarrow>
               (case parse (ed_data d) of
                  Inl err \<Rightarrow> Inl err
                | Inr g \<Rightarrow> Inr (Some (Inr \<lparr>rest = e, data = g, workflowData = ed_workflowData d\<rparr>)))))"
proof (cases "List.find (\<lambda>e. id' e = i) (execution_entity st)")
  case None
  then show ?thesis
    by (simp add: findSingleExecution_def findOne_def stop_options_def)
next
  case (Some e)
  then have "id' e = i" by (auto simp: find_Some_iff)
  then show ?thesis
    using Some
    by (simp add: findSingleExecution_def findOne_def stop_options_def load_relations_def
        as_response_def split: option.splits sum.splits)
qed

lemma set_executionInformation_as_partial:
  "id' e = id' (rest x) \<Longrightarrow> set_executionInformation (as_partial x) e = rest x"
  by (simp add: set_executionInformation_def as_partial_def or_else_def)

lemma set_executionData_as_partial:
  "set_executionData (as_partial x) d
     = d\<lparr>ed_workflowData := workflowData x, ed_data := stringify (data x)\<rparr>"
  by (simp add: set_executionData_def as_partial_def or_else_def)

lemma Db_update_success:
  assumes "fst (Db_update ev st i x) = Inr u"
  shows "snd (Db_update ev st i x) =
           st\<lparr>execution_entity :=
                 map (\<lambda>e. if id' e = i then set_executionInformation (as_partial x) e else e)
                   (execution_entity st),
              execution_data :=
                 map (\<lambda>d. if executionId d = i then set_executionData (as_partial x) d else d)
                   (execution_data st)\<rparr>"
proof -
  have p: "has_executionInformation (as_partial x)" "p_data (as_partial x) \<noteq> None"
    by (simp_all add: has_executionInformation_def as_partial_def)
  show ?thesis
    using assms p
    by (auto simp: Db_update_def updateExistingExecution_def transaction_def
        update_execution_def update_execution_data_def split: if_splits)
qed

lemma stopExecution_success:
  assumes "fst (stopExecution ev st tr i now) = Inr summary"
  shows "\<exists>e d g g'.
           List.find (\<lambda>e. id' e = i) (execution_entity st) = Some e
         \<and> List.find (\<lambda>d. executionId d = i) (execution_data st) = Some d
         \<and> parse (ed_data d) = Inr g
         \<and> waitTill e \<noteq> None
         \<and> set_resultData_error ev g = Inr g'
         \<and> summary = \<lparr>stop_mode = mode e, stop_startedAt = startedAt e, stop_stoppedAt = Some now,
                        stop_finished = finished e, stop_status = Canceled\<rparr>
         \<and> fst (Db_update ev st i \<lparr>rest = canceled now e, data = g', workflowData = ed_workflowData d\<rparr>)
             = Inr ()
         \<and> snd (snd (stopExecution ev st tr i now))
             = snd (Db_update ev st i \<lparr>rest = canceled now e, data = g', workflowData = ed_workflowData d\<rparr>)"
  using assms
  by (auto simp: stopExecution_def findSingleExecution_stop Let_def canceled_def
      split: option.splits sum.splits if_splits prod.splits)


lemma cancel_error_message:
  "map_of (cancel_error ev) ''message'' = Some (Prim (Str ''Workflow-Execution has been canceled!''))"
  by (simp add: cancel_error_def map_of_set_field)

lemma set_resultData_error_walk:
  assumes "set_resultData_error ev g = Inr g'"
  shows "walk (fst g') (Ref (snd g')) [''resultData'', ''error'', ''message'']
           = Some (Prim (Str ''Workflow-Execution has been canceled!''))"
proof -
  obtain h r where g: "g = (h, r)" by (cases g)
  from assms g obtain a where a: "map_of (object_at h r) ''resultData'' = Some (Ref a)" "a < length h"
    and g': "g' = ((h @ [cancel_error ev])[a := set_field ''error'' (Ref (length h)) (h ! a)], r)"
    by (auto simp: set_resultData_error_def split: option.splits jsval.splits if_splits)
  let ?h2 = "(h @ [cancel_error ev])[a := set_field ''error'' (Ref (length h)) (h ! a)]"
  have r: "r < length h" using a(1) by (auto simp: object_at_def split: if_splits)
  have root: "map_of (object_at ?h2 r) ''resultData'' = Some (Ref a)"
  proof (cases "r = a")
    case True
    then show ?thesis using a r by (simp add: object_at_def map_of_set_field)
  next
    case False
    then show ?thesis using a r by (simp add: object_at_def nth_append)
  qed
  have res: "map_of (object_at ?h2 a) ''error'' = Some (Ref (length h))"
    using a(2) by (simp add: object_at_def map_of_set_field)
  have err: "object_at ?h2 (length h) = cancel_error ev"
    using a(2) by (simp add: object_at_def)
  show ?thesis
    unfolding g' by (simp add: root res err cancel_error_message)
qed

lemma parse_stringify_walk:
  "\<exists>h'. parse (stringify (h, r)) = Inr (h', 0)
       \<and> (\<forall>p. walk h' (Ref 0) p = map_option (map_ref (slot_of (h, r))) (walk h (Ref r) p))"
proof -
  have root: "in_reach h r (Ref r)" by (simp add: in_reach_def reach_def)
  have "walk (map (\<lambda>a. map_obj (index_of (visit h [r] 0)) (object_at h a)) (visit h [r] 0)) (Ref 0) p
          = map_option (map_ref (index_of (visit h [r] 0))) (walk h (Ref r) p)" for p
    using walk_decoded [OF refl root, of p] by (simp add: slot_of_root)
  then show ?thesis
    using parse_stringify_eq [of h r] by (simp add: slot_of_def)
qed

lemma upsert_has: "same x \<Longrightarrow> list_ex same (upsert same x rows)"
  by (auto simp: upsert_def list_ex_iff)



























text \<open>
  The last branch of \<open>findMultipleExecutions\<close> reads \<open>execution.executionData.data\<close> as that
  of \<open>findSingleExecution\<close> does: with no relation loaded a result that is not empty makes
  it throw, and the sweep with it.
\<close>

lemma findMultipleExecutions_relation_not_loaded:
  assumes "\<not> eager_executionData ev" and "''executionData'' \<notin> set (fm_relations q)"
    and "\<not> includeData options" and "\<not> includeWorkflowData options"
    and "find_many ev st q \<noteq> []"
  shows "findMultipleExecutions ev st q options = Inl TypeError"
proof -
  from assms(5) obtain x xs where x: "find_many ev st q = x # xs" by (cases "find_many ev st q") auto
  then have "x \<in> set (find_many ev st q)" by simp
  then have "snd x = None"
    using assms(1,2) by (auto simp: find_many_def Let_def load_relations_def)
  then have "as_flatted x = Inl TypeError" by (cases x) (simp add: as_flatted_def)
  then show ?thesis
    using assms(3,4) x by (simp add: findMultipleExecutions_def)
qed

lemma getWaitingExecutions_relation_not_loaded:
  assumes "\<not> eager_executionData ev" and "find_many ev st (findQuery now) \<noteq> []"
  shows "getWaitingExecutions ev st tr now clock = (Inl TypeError, tr)"
proof -
  have "findMultipleExecutions ev st (findQuery now) no_options = Inl TypeError"
    using assms by (intro findMultipleExecutions_relation_not_loaded)
      (simp_all add: findQuery_def no_options_def)
  then show ?thesis by (simp add: getWaitingExecutions_def)
qed

section \<open>The claims\<close>

text \<open>
  C1. The claim: \<open>deleteExecutions\<close> with \<open>ids = [x]\<close> deletes the execution \<open>x\<close>, its data
  and metadata, and invokes the binary cleanup for \<open>x\<close>. The source does none of it: with an
  id list and no cutoff date the call returns and leaves the database and the binary-data
  manager as they were, whatever the store, the filters and the accessible workflows.
\<close>

theorem deleteExecutions_ids_deletes_nothing:
  "deleteExecutions ev st filters accessibleWorkflowIds \<lparr>deleteBefore = None, ids = Some [x]\<rparr>
     = (Inr (), st)"
  by (simp add: deleteExecutions_def)

text \<open>
  C2. The claim: \<open>createNewExecution\<close> inserts the execution and its data record atomically.
  The source commits the row of the execution first: the first committed state of the
  database has the row of the new key and no new data record, and when the database rejects
  the second \<open>save\<close> the call throws and that state stays.
\<close>

theorem createNewExecution_not_atomic:
  assumes "\<not> db_rejects ev SaveExecution"
  shows "createNewExecution_commits ev st execution \<noteq> []
       \<and> list_ex (\<lambda>e. id' e = new_key ev st execution)
           (execution_entity (hd (createNewExecution_commits ev st execution)))
       \<and> execution_data (hd (createNewExecution_commits ev st execution)) = execution_data st
       \<and> (db_rejects ev SaveExecutionData \<longrightarrow>
            createNewExecution ev st execution
              = (Inl PersistenceError, hd (createNewExecution_commits ev st execution)))"
proof -
  have "list_ex (\<lambda>e. id' e = new_key ev st execution)
          (upsert (\<lambda>x. id' x = new_key ev st execution) (with_id (new_key ev st execution) (rest execution))
             (execution_entity st))"
    by (rule upsert_has) (simp add: with_id_def)
  then show ?thesis
    using assms
    by (simp add: createNewExecution_commits_def createNewExecution_def save_execution_def
        new_key_def Let_def)
qed

text \<open>C2, at an example: the database rejects the \<open>save\<close> of the data record.\<close>

theorem createNewExecution_not_atomic_witness:
  "\<not> db_rejects (ok_env\<lparr>db_rejects := (\<lambda>w. w = SaveExecutionData)\<rparr>) SaveExecution
   \<and> fst (createNewExecution (ok_env\<lparr>db_rejects := (\<lambda>w. w = SaveExecutionData)\<rparr>) store2 new_execution)
       = Inl PersistenceError
   \<and> map id' (execution_entity (snd (createNewExecution
        (ok_env\<lparr>db_rejects := (\<lambda>w. w = SaveExecutionData)\<rparr>) store2 new_execution)))
       = [''1'', ''2'', ''3'', ''7'']
   \<and> map executionId (execution_data (snd (createNewExecution
        (ok_env\<lparr>db_rejects := (\<lambda>w. w = SaveExecutionData)\<rparr>) store2 new_execution)))
       = [''1'', ''2'']"
proof -
  let ?ev = "ok_env\<lparr>db_rejects := (\<lambda>w. w = SaveExecutionData)\<rparr>"
  have h: "\<not> db_rejects ?ev SaveExecution" by simp
  have r: "db_rejects ?ev SaveExecutionData" by simp
  have c: "map id' (execution_entity (hd (createNewExecution_commits ?ev store2 new_execution)))
             = [''1'', ''2'', ''3'', ''7'']"
    by code_simp
  from createNewExecution_not_atomic [OF h, of store2 new_execution] r
  have "createNewExecution ?ev store2 new_execution
          = (Inl PersistenceError, hd (createNewExecution_commits ?ev store2 new_execution))"
    and "execution_data (hd (createNewExecution_commits ?ev store2 new_execution)) = execution_data store2"
    by blast+
  then show ?thesis using h c by (simp add: store2_def)
qed






text \<open>
  Outside the invariant, where a record with no \<open>waitTill\<close> has lost its data record, the read
  with \<open>includeData\<close> throws its \<open>TypeError\<close> before \<open>waitTill\<close> is tested.
\<close>

lemma stopExecution_missing_data_record:
  "List.find (\<lambda>e. id' e = ''3'') (execution_entity store2) = Some row3 \<and> waitTill row3 = None
   \<and> \<not> readable store2 ''3''
   \<and> fst (stopExecution ok_env store2 no_timers ''3'' 9000) = Inl TypeError"
  by code_simp

text \<open>
  C5. When \<open>stopExecution\<close> returns, the execution had a \<open>waitTill\<close>; its stored row has
  \<open>status = canceled\<close>, \<open>waitTill = null\<close> and \<open>stoppedAt = now\<close>; the stored data is the
  encoding of the run data with the cancellation error at \<open>resultData.error\<close>, where a reader
  that decodes it finds the message; the database is the one \<open>updateExistingExecution\<close>
  leaves; and the summary returned is mode, startedAt, stoppedAt, finished and status.
\<close>

theorem stopExecution_cancels:
  assumes "fst (stopExecution ev st tr i now) = Inr summary"
  shows "\<exists>e d g g' h'.
           List.find (\<lambda>e. id' e = i) (execution_entity st) = Some e \<and> waitTill e \<noteq> None
         \<and> List.find (\<lambda>d. executionId d = i) (execution_data st) = Some d
         \<and> parse (ed_data d) = Inr g
         \<and> set_resultData_error ev g = Inr g'
         \<and> walk (fst g') (Ref (snd g')) [''resultData'', ''error'', ''message'']
             = Some (Prim (Str ''Workflow-Execution has been canceled!''))
         \<and> snd (snd (stopExecution ev st tr i now))
             = snd (updateExistingExecution ev st i
                      (as_partial \<lparr>rest = e\<lparr>stoppedAt := Some now, waitTill := None, status := Canceled\<rparr>,
                                   data = g', workflowData = ed_workflowData d\<rparr>))
         \<and> List.find (\<lambda>e. id' e = i) (execution_entity (snd (snd (stopExecution ev st tr i now))))
             = Some (e\<lparr>stoppedAt := Some now, waitTill := None, status := Canceled\<rparr>)
         \<and> List.find (\<lambda>d. executionId d = i) (execution_data (snd (snd (stopExecution ev st tr i now))))
             = Some (d\<lparr>ed_data := stringify g'\<rparr>)
         \<and> parse (stringify g') = Inr (h', 0)
         \<and> walk h' (Ref 0) [''resultData'', ''error'', ''message'']
             = Some (Prim (Str ''Workflow-Execution has been canceled!''))
         \<and> summary = \<lparr>stop_mode = mode e, stop_startedAt = startedAt e, stop_stoppedAt = Some now,
                        stop_finished = finished e, stop_status = Canceled\<rparr>"
proof -
  from stopExecution_success [OF assms] obtain e d g g' where
    e: "List.find (\<lambda>e. id' e = i) (execution_entity st) = Some e"
    and d: "List.find (\<lambda>d. executionId d = i) (execution_data st) = Some d"
    and g: "parse (ed_data d) = Inr g"
    and w: "waitTill e \<noteq> None"
    and g': "set_resultData_error ev g = Inr g'"
    and s: "summary = \<lparr>stop_mode = mode e, stop_startedAt = startedAt e, stop_stoppedAt = Some now,
                        stop_finished = finished e, stop_status = Canceled\<rparr>"
    and ok: "fst (Db_update ev st i \<lparr>rest = canceled now e, data = g', workflowData = ed_workflowData d\<rparr>)
               = Inr ()"
    and st': "snd (snd (stopExecution ev st tr i now))
               = snd (Db_update ev st i \<lparr>rest = canceled now e, data = g', workflowData = ed_workflowData d\<rparr>)"
    by blast
  let ?x = "\<lparr>rest = canceled now e, data = g', workflowData = ed_workflowData d\<rparr>"
  let ?st' = "snd (snd (stopExecution ev st tr i now))"
  have ide: "id' e = i" using e by (auto simp: find_Some_iff)
  have idd: "executionId d = i" using d by (auto simp: find_Some_iff)
  note upd = Db_update_success [OF ok]
  have row: "List.find (\<lambda>e. id' e = i) (execution_entity ?st') = Some (canceled now e)"
  proof -
    have "List.find (\<lambda>e. id' e = i)
            (map (\<lambda>e. if id' e = i then set_executionInformation (as_partial ?x) e else e)
               (execution_entity st))
          = map_option (set_executionInformation (as_partial ?x))
              (List.find (\<lambda>e. id' e = i) (execution_entity st))"
      by (rule find_map_update) (simp add: set_executionInformation_def)
    also have "\<dots> = Some (canceled now e)"
      using e ide by (simp add: set_executionInformation_as_partial canceled_def)
    finally show ?thesis by (simp add: st' upd)
  qed
  have dat: "List.find (\<lambda>d. executionId d = i) (execution_data ?st') = Some (d\<lparr>ed_data := stringify g'\<rparr>)"
  proof -
    have "List.find (\<lambda>d. executionId d = i)
            (map (\<lambda>d. if executionId d = i then set_executionData (as_partial ?x) d else d)
               (execution_data st))
          = map_option (set_executionData (as_partial ?x))
              (List.find (\<lambda>d. executionId d = i) (execution_data st))"
      by (rule find_map_update) (simp add: set_executionData_def)
    also have "\<dots> = Some (d\<lparr>ed_data := stringify g'\<rparr>)"
      using d by (simp add: set_executionData_as_partial)
    finally show ?thesis by (simp add: st' upd)
  qed
  note wk = set_resultData_error_walk [OF g']
  obtain h' where h': "parse (stringify g') = Inr (h', 0)"
    "\<And>p. walk h' (Ref 0) p = map_option (map_ref (slot_of g')) (walk (fst g') (Ref (snd g')) p)"
    using parse_stringify_walk [of "fst g'" "snd g'"] by auto
  have wk': "walk h' (Ref 0) [''resultData'', ''error'', ''message'']
               = Some (Prim (Str ''Workflow-Execution has been canceled!''))"
    unfolding h'(2) wk by simp
  have pers: "?st' = snd (updateExistingExecution ev st i
                      (as_partial \<lparr>rest = e\<lparr>stoppedAt := Some now, waitTill := None, status := Canceled\<rparr>,
                                   data = g', workflowData = ed_workflowData d\<rparr>))"
    using st' by (simp add: Db_update_def canceled_def)
  show ?thesis
    using e w d g g' wk pers row dat h'(1) wk' s unfolding canceled_def by blast
qed

text \<open>C5, at an example: a waiting execution is cancelled.\<close>

theorem stopExecution_cancels_witness:
  "fst (stopExecution ok_env store2 no_timers ''1'' 9000)
     = Inr \<lparr>stop_mode = Manual, stop_startedAt = 1000, stop_stoppedAt = Some 9000,
            stop_finished = False, stop_status = Canceled\<rparr>
   \<and> (\<exists>e. List.find (\<lambda>e. id' e = ''1'')
            (execution_entity (snd (snd (stopExecution ok_env store2 no_timers ''1'' 9000))))
          = Some e \<and> status e = Canceled \<and> waitTill e = None \<and> stoppedAt e = Some 9000)"
proof -
  have h: "fst (stopExecution ok_env store2 no_timers ''1'' 9000)
     = Inr \<lparr>stop_mode = Manual, stop_startedAt = 1000, stop_stoppedAt = Some 9000,
            stop_finished = False, stop_status = Canceled\<rparr>"
    by code_simp
  from stopExecution_cancels [OF h] show ?thesis using h by auto
qed

text \<open>
  C6. The claim: \<open>findSingleExecution\<close> without \<open>includeData\<close> and \<open>includeWorkflowData\<close>
  succeeds and returns the record without the data fields. The source reads
  \<open>execution.executionData.data\<close> in that case too: for a stored id the call throws a
  \<open>TypeError\<close> when the relation was not loaded, and returns the data fields when the relation
  is loaded with every row.
\<close>

theorem findSingleExecution_without_data:
  assumes "List.find (\<lambda>e. id' e = i) (execution_entity st) = Some e"
    and "\<not> includeData options" and "\<not> includeWorkflowData options"
    and "fo_where options = None"
  shows "findSingleExecution ev st i options =
     (if eager_executionData ev
      then (case List.find (\<lambda>d. executionId d = i) (execution_data st) of
              None \<Rightarrow> Inl TypeError
            | Some d \<Rightarrow> Inr (Some (Inl \<lparr>rest = e, data = ed_data d, workflowData = ed_workflowData d\<rparr>)))
      else Inl TypeError)"
proof -
  have "id' e = i" using assms(1) by (auto simp: find_Some_iff)
  then show ?thesis
    using assms
    by (simp add: findSingleExecution_def findOne_def load_relations_def as_flatted_def
        split: option.splits)
qed

text \<open>C6, at an example: a stored execution, read with no options.\<close>

theorem findSingleExecution_without_data_witness:
  "List.find (\<lambda>e. id' e = ''1'') (execution_entity store2) = Some row1
   \<and> \<not> includeData no_options \<and> \<not> includeWorkflowData no_options \<and> fo_where no_options = None
   \<and> findSingleExecution ok_env store2 ''1'' no_options = Inl TypeError"
proof -
  have h: "List.find (\<lambda>e. id' e = ''1'') (execution_entity store2) = Some row1"
    by (simp add: store2_def row1_def)
  have o: "\<not> includeData no_options" "\<not> includeWorkflowData no_options" "fo_where no_options = None"
    by (simp_all add: no_options_def)
  from findSingleExecution_without_data [OF h o, of ok_env] show ?thesis
    using h o by (simp add: ok_env_def)
qed

text \<open>
  C7. For an id that no row of the store has, \<open>updateExistingExecution\<close> changes nothing and
  does not throw \<open>NotFound\<close>: it returns normally unless the database rejects a statement.
\<close>

theorem updateExistingExecution_unknown_id:
  assumes "i \<notin> set (map id' (execution_entity st))"
    and "i \<notin> set (map executionId (execution_data st))"
  shows "snd (updateExistingExecution ev st i execution) = st
       \<and> fst (updateExistingExecution ev st i execution) \<noteq> Inl NotFound
       \<and> (\<not> db_rejects ev UpdateExecution \<and> \<not> db_rejects ev UpdateExecutionData
            \<longrightarrow> fst (updateExistingExecution ev st i execution) = Inr ())"
proof -
  have e: "map (\<lambda>e. if id' e = i then f e else e) (execution_entity st) = execution_entity st" for f
    using assms(1) by (intro map_update_absent) auto
  have d: "map (\<lambda>d. if executionId d = i then f d else d) (execution_data st) = execution_data st" for f
    using assms(2) by (intro map_update_absent) auto
  show ?thesis
    by (simp add: updateExistingExecution_def transaction_def update_execution_def
        update_execution_data_def e d)
qed

text \<open>C7 as stated fails: the update of an unknown id returns normally.\<close>

theorem updateExistingExecution_unknown_id_counterexample:
  "updateExistingExecution ok_env store2 ''42'' set_running = (Inr (), store2)"
  by code_simp

text \<open>C7, at an example.\<close>

theorem updateExistingExecution_unknown_id_witness:
  "''42'' \<notin> set (map id' (execution_entity store2))
   \<and> ''42'' \<notin> set (map executionId (execution_data store2))
   \<and> snd (updateExistingExecution ok_env store2 ''42'' set_running) = store2
   \<and> fst (updateExistingExecution ok_env store2 ''42'' set_running) = Inr ()"
proof -
  have h1: "''42'' \<notin> set (map id' (execution_entity store2))"
    by (simp add: store2_def row1_def row2_def row3_def)
  have h2: "''42'' \<notin> set (map executionId (execution_data store2))"
    by (simp add: store2_def)
  from updateExistingExecution_unknown_id [OF h1 h2, of ok_env set_running] show ?thesis
    using h1 h2 by (simp add: ok_env_def)
qed

text \<open>
  C8. \<open>deleteExecution\<close> calls the binary cleanup first and deletes the rows after it. The
  cleanup is awaited with no \<open>catch\<close>: when it rejects, the call throws what it threw and
  the rows stay; when it resolves, the rows are deleted unless the database rejects the
  statement.
\<close>

theorem deleteExecution_cleanup_then_rows:
  "(binary_rejects ev i \<longrightarrow>
      deleteExecution ev st i = (Inl BinaryDataError, st\<lparr>cleanupCalls := cleanupCalls st @ [i]\<rparr>))
   \<and> (\<not> binary_rejects ev i \<and> \<not> db_rejects ev DeleteExecution \<longrightarrow>
        deleteExecution ev st i
          = (Inr (), delete_rows (st\<lparr>cleanupCalls := cleanupCalls st @ [i],
                                     binaryData := removeAll i (binaryData st)\<rparr>) i))
   \<and> (\<not> binary_rejects ev i \<and> db_rejects ev DeleteExecution \<longrightarrow>
        deleteExecution ev st i
          = (Inl PersistenceError, st\<lparr>cleanupCalls := cleanupCalls st @ [i],
                                        binaryData := removeAll i (binaryData st)\<rparr>))"
  by (simp add: deleteExecution_def deleteBinaryDataByExecutionId_def)

text \<open>
  C8 as stated fails: the cleanup of execution 1 rejects, and \<open>deleteExecution\<close> throws and
  deletes no row.
\<close>

theorem deleteExecution_cleanup_then_rows_counterexample:
  "fst (deleteExecution (ok_env\<lparr>binary_rejects := (\<lambda>i. i = ''1'')\<rparr>) store2 ''1'')
     = Inl BinaryDataError
   \<and> execution_entity (snd (deleteExecution (ok_env\<lparr>binary_rejects := (\<lambda>i. i = ''1'')\<rparr>) store2 ''1''))
       = [row1, row2, row3]
   \<and> map executionId
        (execution_data (snd (deleteExecution (ok_env\<lparr>binary_rejects := (\<lambda>i. i = ''1'')\<rparr>) store2 ''1'')))
       = [''1'', ''2'']"
  by (simp add: deleteExecution_def deleteBinaryDataByExecutionId_def store2_def)

text \<open>C8, at an example: the cleanup of execution 1 resolves, and its rows are deleted.\<close>

theorem deleteExecution_cleanup_then_rows_witness:
  "\<not> binary_rejects ok_env ''1'' \<and> \<not> db_rejects ok_env DeleteExecution
   \<and> fst (deleteExecution ok_env store2 ''1'') = Inr ()
   \<and> execution_entity (snd (deleteExecution ok_env store2 ''1'')) = [row2, row3]
   \<and> map executionId (execution_data (snd (deleteExecution ok_env store2 ''1''))) = [''2'']
   \<and> execution_metadata (snd (deleteExecution ok_env store2 ''1'')) = []
   \<and> binaryData (snd (deleteExecution ok_env store2 ''1'')) = []
   \<and> cleanupCalls (snd (deleteExecution ok_env store2 ''1'')) = [''1'']"
proof -
  have h: "\<not> binary_rejects ok_env ''1'' \<and> \<not> db_rejects ok_env DeleteExecution"
    by (simp add: ok_env_def)
  from deleteExecution_cleanup_then_rows [of ok_env "''1''" store2] h
  have "deleteExecution ok_env store2 ''1''
          = (Inr (), delete_rows (store2\<lparr>cleanupCalls := cleanupCalls store2 @ [''1''],
                                           binaryData := removeAll ''1'' (binaryData store2)\<rparr>) ''1'')"
    by blast
  then show ?thesis
    using h by (simp add: delete_rows_def store2_def row1_def row2_def row3_def)
qed

text \<open>
  C9. Decoding the encoding of a graph gives a graph with root 0 whose objects are those the
  root reaches, renamed one to one by \<open>slot_of\<close>, with the same fields; so two paths of field
  names end at the same object or value after decoding exactly when they did before.
\<close>

theorem parse_stringify_preserves_identity:
  "\<exists>h'. parse (stringify (h, r)) = Inr (h', 0)
       \<and> bij_betw (slot_of (h, r)) (reach h r) {..<length h'}
       \<and> slot_of (h, r) r = 0
       \<and> (\<forall>a\<in>reach h r. h' ! slot_of (h, r) a = map_obj (slot_of (h, r)) (object_at h a))
       \<and> (\<forall>p q. (walk h' (Ref 0) p = walk h' (Ref 0) q)
                   = (walk h (Ref r) p = walk h (Ref r) q))"
proof -
  let ?seen = "visit h [r] 0"
  let ?\<phi> = "index_of ?seen"
  let ?h' = "map (\<lambda>a. map_obj ?\<phi> (object_at h a)) ?seen"
  have root: "in_reach h r (Ref r)" by (simp add: in_reach_def reach_def)
  have w: "walk ?h' (Ref 0) p = map_option (map_ref ?\<phi>) (walk h (Ref r) p)" for p
    using walk_decoded [OF refl root, of p] by (simp add: slot_of_root)
  have "(walk ?h' (Ref 0) p = walk ?h' (Ref 0) q) = (walk h (Ref r) p = walk h (Ref r) q)" for p q
  proof
    assume eq: "walk ?h' (Ref 0) p = walk ?h' (Ref 0) q"
    show "walk h (Ref r) p = walk h (Ref r) q"
    proof (cases "walk h (Ref r) p")
      case None
      then show ?thesis using eq w [of p] w [of q] by (cases "walk h (Ref r) q") simp_all
    next
      case (Some v)
      then obtain u where u: "walk h (Ref r) q = Some u"
        using eq w [of p] w [of q] by (cases "walk h (Ref r) q") simp_all
      have "in_reach h r v" "in_reach h r u"
        using walk_in_reach [OF root] Some u by blast+
      moreover have "map_ref ?\<phi> v = map_ref ?\<phi> u" using eq w [of p] w [of q] Some u by simp
      ultimately have "v = u" by (rule map_ref_inj)
      then show ?thesis using Some u by simp
    qed
  next
    assume "walk h (Ref r) p = walk h (Ref r) q"
    then show "walk ?h' (Ref 0) p = walk ?h' (Ref 0) q" using w [of p] w [of q] by simp
  qed
  then have paths: "\<forall>p q. (walk ?h' (Ref 0) p = walk ?h' (Ref 0) q)
                          = (walk h (Ref r) p = walk h (Ref r) q)" by blast
  have len: "length ?h' = length ?seen" by simp
  have "parse (stringify (h, r)) = Inr (?h', 0)" by (rule parse_stringify_eq)
  moreover have "bij_betw (slot_of (h, r)) (reach h r) {..<length ?h'}"
    unfolding len slot_of_def using slot_of_bij [of h r] by simp
  moreover have "slot_of (h, r) r = 0" by (simp add: slot_of_def slot_of_root)
  moreover have "\<forall>a\<in>reach h r. ?h' ! slot_of (h, r) a = map_obj (slot_of (h, r)) (object_at h a)"
    using decoded_object [of _ h r] by (simp add: slot_of_def)
  ultimately show ?thesis using paths by blast
qed

text \<open>
  C9, at an example: \<open>A.next = B\<close>, \<open>B.next = A\<close>, and one error object that both refer to.
\<close>

theorem parse_stringify_preserves_identity_witness:
  "\<exists>h'. parse (stringify (cyclic_heap, 2)) = Inr (h', 0)
       \<and> walk h' (Ref 0) [''next'', ''next''] = walk h' (Ref 0) []
       \<and> walk h' (Ref 0) [''error''] = walk h' (Ref 0) [''next'', ''error'']
       \<and> walk h' (Ref 0) [''next''] \<noteq> walk h' (Ref 0) []
       \<and> 1 \<in> reach cyclic_heap 2
       \<and> h' ! slot_of (cyclic_heap, 2) 1
           = map_obj (slot_of (cyclic_heap, 2)) [(''next'', Ref 2), (''error'', Ref 0)]"
proof -
  from parse_stringify_preserves_identity [of cyclic_heap 2] obtain h' where
    h': "parse (stringify (cyclic_heap, 2)) = Inr (h', 0)"
    and ob: "\<forall>a\<in>reach cyclic_heap 2.
               h' ! slot_of (cyclic_heap, 2) a = map_obj (slot_of (cyclic_heap, 2)) (object_at cyclic_heap a)"
    and paths: "\<forall>p q. (walk h' (Ref 0) p = walk h' (Ref 0) q)
                  = (walk cyclic_heap (Ref 2) p = walk cyclic_heap (Ref 2) q)"
    by blast
  have w1: "walk cyclic_heap (Ref 2) [''next'', ''next''] = walk cyclic_heap (Ref 2) []"
    by (simp add: cyclic_heap_def object_at_def)
  have w2: "walk cyclic_heap (Ref 2) [''error''] = walk cyclic_heap (Ref 2) [''next'', ''error'']"
    by (simp add: cyclic_heap_def object_at_def)
  have w3: "walk cyclic_heap (Ref 2) [''next''] \<noteq> walk cyclic_heap (Ref 2) []"
    by (simp add: cyclic_heap_def object_at_def)
  have "(2, 1) \<in> edges cyclic_heap"
    by (simp add: edges_def cyclic_heap_def object_at_def)
  then have r: "1 \<in> reach cyclic_heap 2" by (auto simp: reach_def)
  have o: "object_at cyclic_heap 1 = [(''next'', Ref 2), (''error'', Ref 0)]"
    by (simp add: cyclic_heap_def object_at_def)
  have p1: "walk h' (Ref 0) [''next'', ''next''] = walk h' (Ref 0) []"
    using w1 by (simp only: paths [rule_format])
  have p2: "walk h' (Ref 0) [''error''] = walk h' (Ref 0) [''next'', ''error'']"
    using w2 by (simp only: paths [rule_format])
  have p3: "walk h' (Ref 0) [''next''] \<noteq> walk h' (Ref 0) []"
    using w3 by (simp add: paths [rule_format] del: walk.simps)
  have p4: "h' ! slot_of (cyclic_heap, 2) 1
              = map_obj (slot_of (cyclic_heap, 2)) [(''next'', Ref 2), (''error'', Ref 0)]"
    using ob r o by (simp only:)
  from h' p1 p2 p3 r p4 show ?thesis by blast
qed

end
